theory Spec2Isabelle
  imports Complex_Main "HOL-Library.Word"
begin

section \<open>Auth environment resolver (packages/shared/src/auth/resolve-auth-env.ts)\<close>

text \<open>
  \<^verbatim>\<open>AuthType\<close> is imported from \<^verbatim>\<open>../config/types.ts\<close>; at run time its values are
  strings, and the resolver only compares them with the literals \<^verbatim>\<open>'bedrock'\<close> and
  \<^verbatim>\<open>'oauth_token'\<close>. A field of type \<^verbatim>\<open>string | null\<close> is a \<open>string option\<close>,
  \<^verbatim>\<open>null\<close> being \<open>None\<close>.
\<close>

type_synonym AuthType = string

record Billing =
  type_b :: "AuthType option"
  hasCredentials :: bool
  apiKey :: "string option"
  claudeOAuthToken :: "string option"

record AuthEnvInput =
  billing :: Billing
  customBaseUrl :: "string option"

text \<open>
  The result: \<^verbatim>\<open>set\<close> is an object literal, kept as the list of its entries in the order
  they are written; \<^verbatim>\<open>delete\<close> is an array; \<^verbatim>\<open>error\<close> is an optional string.
\<close>

record AuthEnvResult =
  set_r :: "(string \<times> string) list"
  delete_r :: "string list"
  error_r :: "string option"

text \<open>
  JavaScript truthiness of a \<^verbatim>\<open>string | null\<close>: \<^verbatim>\<open>null\<close> and the empty string are falsy,
  every other string is truthy. \<open>truthy v\<close> is the string when \<open>v\<close> is truthy.
\<close>

fun truthy :: "string option \<Rightarrow> string option" where
  "truthy None = None"
| "truthy (Some s) = (if s = [] then None else Some s)"

text \<open>\<^verbatim>\<open>a || d\<close> for a \<^verbatim>\<open>string | null\<close> on the left.\<close>

definition or_else :: "string option \<Rightarrow> string \<Rightarrow> string" where
  "or_else a d = (case truthy a of Some s \<Rightarrow> s | None \<Rightarrow> d)"

definition resolveAuthEnv :: "AuthEnvInput \<Rightarrow> AuthEnvResult" where
  "resolveAuthEnv input =
    (if type_b (billing input) = Some ''bedrock'' then
       \<lparr>set_r = [], delete_r = [], error_r = None\<rparr>
     else case truthy (customBaseUrl input) of
       Some url \<Rightarrow>
         \<lparr>set_r = [(''ANTHROPIC_BASE_URL'', url),
                   (''ANTHROPIC_API_KEY'', or_else (apiKey (billing input)) ''not-needed'')],
          delete_r = [''CLAUDE_CODE_OAUTH_TOKEN''],
          error_r = None\<rparr>
     | None \<Rightarrow>
        (case (if type_b (billing input) = Some ''oauth_token''
               then truthy (claudeOAuthToken (billing input)) else None) of
           Some tok \<Rightarrow>
             \<lparr>set_r = [(''CLAUDE_CODE_OAUTH_TOKEN'', tok)],
              delete_r = [''ANTHROPIC_API_KEY'', ''ANTHROPIC_BASE_URL''],
              error_r = None\<rparr>
         | None \<Rightarrow>
            (case truthy (apiKey (billing input)) of
               Some k \<Rightarrow>
                 \<lparr>set_r = [(''ANTHROPIC_API_KEY'', k)],
                  delete_r = [''CLAUDE_CODE_OAUTH_TOKEN'', ''ANTHROPIC_BASE_URL''],
                  error_r = None\<rparr>
             | None \<Rightarrow>
                 \<lparr>set_r = [], delete_r = [],
                  error_r = Some ''No authentication configured''\<rparr>)))"

text \<open>The names a result sets: the keys of its \<^verbatim>\<open>set\<close> record.\<close>

definition set_keys :: "AuthEnvResult \<Rightarrow> string list" where
  "set_keys r = map fst (set_r r)"

section \<open>Hooks configuration schema (packages/shared/src/hooks-simple/schemas.ts)\<close>

subsection \<open>Parsed JSON values and validation issues\<close>

text \<open>
  The raw configuration is the value \<^verbatim>\<open>JSON.parse\<close> produced. An object is the list of its
  own properties in enumeration order (the order of \<^verbatim>\<open>Object.entries\<close>), with distinct
  keys; a number is the value of the double.
\<close>

datatype json =
    JNull
  | JBool bool
  | JNum real
  | JStr string
  | JArr "json list"
  | JObj "(string \<times> json) list"

text \<open>\<^verbatim>\<open>data[key]\<close> on a parsed object, for the keys of the schemas; \<open>None\<close> is \<^verbatim>\<open>undefined\<close>.\<close>

fun prop_of :: "json \<Rightarrow> string \<Rightarrow> json option" where
  "prop_of (JObj fs) k = map_of fs k"
| "prop_of _ k = None"

datatype PathSeg = Key string | Index nat

record ZodIssue =
  issue_path :: "PathSeg list"
  issue_message :: string

record ZodError =
  issues :: "ZodIssue list"

text \<open>
  \<^verbatim>\<open>ValidationIssue\<close> is declared in \<^verbatim>\<open>../config/validators.ts\<close>; its four fields \<^verbatim>\<open>file\<close>, \<^verbatim>\<open>path\<close>,
  \<^verbatim>\<open>message\<close> and \<^verbatim>\<open>severity\<close> are the ones \<^verbatim>\<open>zodErrorToIssues\<close> writes.
\<close>

record ValidationIssue =
  file_v :: string
  path_v :: string
  message_v :: string
  severity_v :: string

subsection \<open>The schemas\<close>

text \<open>
  Each schema is the function from a path and a value to the issues zod reports for the
  value at that path. zod parses every field of an object and every element of an array
  and collects all their issues; a parse succeeds when there is none. The schemas are read
  as zod 4 reads them. The texts of the three messages the source gives are the source's;
  the other messages are worded after zod's English locale, and no property below depends
  on their text.
\<close>

fun parsedType :: "json \<Rightarrow> string" where
  "parsedType JNull = ''null''"
| "parsedType (JBool b) = ''boolean''"
| "parsedType (JNum n) = ''number''"
| "parsedType (JStr s) = ''string''"
| "parsedType (JArr xs) = ''array''"
| "parsedType (JObj fs) = ''object''"

definition invalid_type :: "PathSeg list \<Rightarrow> string \<Rightarrow> json \<Rightarrow> ZodIssue" where
  "invalid_type p expected v =
     \<lparr>issue_path = p,
      issue_message = ''Invalid input: expected '' @ expected @ '', received ''
        @ parsedType v\<rparr>"

text \<open>A text between double quotes.\<close>

definition dq :: "string \<Rightarrow> string" where
  "dq s = [CHR 0x22] @ s @ [CHR 0x22]"

text \<open>A field that must be present, and an \<^verbatim>\<open>.optional()\<close> one.\<close>

definition required ::
  "string \<Rightarrow> (PathSeg list \<Rightarrow> json \<Rightarrow> ZodIssue list) \<Rightarrow> PathSeg list \<Rightarrow> json option
     \<Rightarrow> ZodIssue list" where
  "required expected schema p v =
     (case v of
        None \<Rightarrow> [\<lparr>issue_path = p,
                  issue_message = ''Invalid input: expected '' @ expected
                    @ '', received undefined''\<rparr>]
      | Some x \<Rightarrow> schema p x)"

definition optional ::
  "(PathSeg list \<Rightarrow> json \<Rightarrow> ZodIssue list) \<Rightarrow> PathSeg list \<Rightarrow> json option \<Rightarrow> ZodIssue list" where
  "optional schema p v = (case v of None \<Rightarrow> [] | Some x \<Rightarrow> schema p x)"

text \<open>\<^verbatim>\<open>z.string()\<close> and \<^verbatim>\<open>z.string().min(1, msg)\<close>.\<close>

fun z_string :: "PathSeg list \<Rightarrow> json \<Rightarrow> ZodIssue list" where
  "z_string p (JStr s) = []"
| "z_string p v = [invalid_type p ''string'' v]"

fun z_string_min1 :: "string \<Rightarrow> PathSeg list \<Rightarrow> json \<Rightarrow> ZodIssue list" where
  "z_string_min1 msg p (JStr s) =
     (if length s < 1 then [\<lparr>issue_path = p, issue_message = msg\<rparr>] else [])"
| "z_string_min1 msg p v = [invalid_type p ''string'' v]"

text \<open>\<^verbatim>\<open>z.number()\<close> and \<^verbatim>\<open>z.number().positive()\<close>.\<close>

fun z_number :: "PathSeg list \<Rightarrow> json \<Rightarrow> ZodIssue list" where
  "z_number p (JNum n) = []"
| "z_number p v = [invalid_type p ''number'' v]"

fun z_number_positive :: "PathSeg list \<Rightarrow> json \<Rightarrow> ZodIssue list" where
  "z_number_positive p (JNum n) =
     (if n > 0 then []
      else [\<lparr>issue_path = p, issue_message = ''Too small: expected number to be >0''\<rparr>])"
| "z_number_positive p v = [invalid_type p ''number'' v]"

fun z_boolean :: "PathSeg list \<Rightarrow> json \<Rightarrow> ZodIssue list" where
  "z_boolean p (JBool b) = []"
| "z_boolean p v = [invalid_type p ''boolean'' v]"

text \<open>\<^verbatim>\<open>z.array(schema)\<close>: the issues of every element, each under its index.\<close>

definition z_elements ::
  "(PathSeg list \<Rightarrow> json \<Rightarrow> ZodIssue list) \<Rightarrow> PathSeg list \<Rightarrow> json list \<Rightarrow> ZodIssue list" where
  "z_elements schema p xs =
     concat (map (\<lambda>(i, x). schema (p @ [Index i]) x) (enumerate 0 xs))"

fun z_array ::
  "(PathSeg list \<Rightarrow> json \<Rightarrow> ZodIssue list) \<Rightarrow> PathSeg list \<Rightarrow> json \<Rightarrow> ZodIssue list" where
  "z_array schema p (JArr xs) = z_elements schema p xs"
| "z_array schema p v = [invalid_type p ''array'' v]"

text \<open>
  \<^verbatim>\<open>CommandHookSchema\<close> and \<^verbatim>\<open>PromptHookSchema\<close>, on an object whose \<^verbatim>\<open>type\<close> the
  discriminated union has already matched with the schema's literal.
\<close>

definition CommandHookSchema :: "PathSeg list \<Rightarrow> json \<Rightarrow> ZodIssue list" where
  "CommandHookSchema p v =
     required ''string'' (z_string_min1 ''Command cannot be empty'') (p @ [Key ''command''])
       (prop_of v ''command'') @
     optional z_number_positive (p @ [Key ''timeout'']) (prop_of v ''timeout'')"

definition PromptHookSchema :: "PathSeg list \<Rightarrow> json \<Rightarrow> ZodIssue list" where
  "PromptHookSchema p v =
     required ''string'' (z_string_min1 ''Prompt cannot be empty'') (p @ [Key ''prompt''])
       (prop_of v ''prompt'')"

definition invalid_discriminator :: "PathSeg list \<Rightarrow> ZodIssue" where
  "invalid_discriminator p =
     \<lparr>issue_path = p @ [Key ''type''], issue_message = ''Invalid input''\<rparr>"

fun HookDefinitionSchema :: "PathSeg list \<Rightarrow> json \<Rightarrow> ZodIssue list" where
  "HookDefinitionSchema p (JObj fs) =
     (case map_of fs ''type'' of
        Some (JStr t) \<Rightarrow>
          if t = ''command'' then CommandHookSchema p (JObj fs)
          else if t = ''prompt'' then PromptHookSchema p (JObj fs)
          else [invalid_discriminator p]
      | _ \<Rightarrow> [invalid_discriminator p])"
| "HookDefinitionSchema p v = [invalid_type p ''object'' v]"

text \<open>\<^verbatim>\<open>z.enum(['safe', 'ask', 'allow-all'])\<close>.\<close>

definition invalid_option :: "PathSeg list \<Rightarrow> ZodIssue" where
  "invalid_option p =
     \<lparr>issue_path = p,
      issue_message = ''Invalid option: expected one of '' @ dq ''safe'' @ ''|'' @ dq ''ask''
        @ ''|'' @ dq ''allow-all''\<rparr>"

fun z_permissionMode :: "PathSeg list \<Rightarrow> json \<Rightarrow> ZodIssue list" where
  "z_permissionMode p (JStr s) =
     (if s \<in> set [''safe'', ''ask'', ''allow-all''] then [] else [invalid_option p])"
| "z_permissionMode p v = [invalid_option p]"

text \<open>
  \<^verbatim>\<open>z.array(HookDefinitionSchema).min(1, 'At least one hook required')\<close>: the length check,
  then the elements.
\<close>

fun z_hooks_min1 :: "PathSeg list \<Rightarrow> json \<Rightarrow> ZodIssue list" where
  "z_hooks_min1 p (JArr ds) =
     (if length ds < 1
      then [\<lparr>issue_path = p, issue_message = ''At least one hook required''\<rparr>] else []) @
     z_elements HookDefinitionSchema p ds"
| "z_hooks_min1 p v = [invalid_type p ''array'' v]"

fun HookMatcherSchema :: "PathSeg list \<Rightarrow> json \<Rightarrow> ZodIssue list" where
  "HookMatcherSchema p (JObj fs) =
     optional z_string (p @ [Key ''matcher'']) (map_of fs ''matcher'') @
     optional z_string (p @ [Key ''cron'']) (map_of fs ''cron'') @
     optional z_string (p @ [Key ''timezone'']) (map_of fs ''timezone'') @
     optional z_permissionMode (p @ [Key ''permissionMode'']) (map_of fs ''permissionMode'') @
     optional (z_array z_string) (p @ [Key ''labels'']) (map_of fs ''labels'') @
     optional z_boolean (p @ [Key ''enabled'']) (map_of fs ''enabled'') @
     required ''array'' z_hooks_min1 (p @ [Key ''hooks'']) (map_of fs ''hooks'')"
| "HookMatcherSchema p v = [invalid_type p ''object'' v]"

text \<open>
  \<^verbatim>\<open>z.record(z.string(), z.array(HookMatcherSchema))\<close>: every property's value is parsed,
  under the property's key, except a property named \<^verbatim>\<open>__proto__\<close>: zod skips that key, it
  neither parses its value nor copies it to the result.
\<close>

definition record_entries :: "(string \<times> json) list \<Rightarrow> (string \<times> json) list" where
  "record_entries evs = filter (\<lambda>(event, v). event \<noteq> ''__proto__'') evs"

fun z_record_of_matchers :: "PathSeg list \<Rightarrow> json \<Rightarrow> ZodIssue list" where
  "z_record_of_matchers p (JObj evs) =
     concat (map (\<lambda>(event, v). z_array HookMatcherSchema (p @ [Key event]) v)
               (record_entries evs))"
| "z_record_of_matchers p v = [invalid_type p ''record'' v]"

text \<open>The object schema of \<^verbatim>\<open>HooksConfigSchema\<close>, before its \<^verbatim>\<open>.transform\<close>.\<close>

fun HooksConfigSchema_issues :: "json \<Rightarrow> ZodIssue list" where
  "HooksConfigSchema_issues (JObj fs) =
     optional z_number [Key ''version''] (map_of fs ''version'') @
     optional z_record_of_matchers [Key ''hooks''] (map_of fs ''hooks'')"
| "HooksConfigSchema_issues v = [invalid_type [] ''object'' v]"

subsection \<open>The value of a successful parse\<close>

text \<open>
  A successful object parse returns a new object holding the schema's keys that the input
  has, in the schema's order: unknown keys are stripped. A successful record parse
  returns the properties it parsed, in their order. These functions are applied only to
  a value that has no issue.
\<close>

definition pick :: "string list \<Rightarrow> (string \<times> json) list \<Rightarrow> (string \<times> json) list" where
  "pick ks fs = concat (map (\<lambda>k. case map_of fs k of None \<Rightarrow> [] | Some v \<Rightarrow> [(k, v)]) ks)"

fun HookDefinition_output :: "json \<Rightarrow> json" where
  "HookDefinition_output (JObj fs) =
     (if map_of fs ''type'' = Some (JStr ''command'')
      then JObj (pick [''type'', ''command'', ''timeout''] fs)
      else JObj (pick [''type'', ''prompt''] fs))"
| "HookDefinition_output v = v"

fun HookMatcher_output :: "json \<Rightarrow> json" where
  "HookMatcher_output (JObj fs) =
     JObj (pick [''matcher'', ''cron'', ''timezone'', ''permissionMode'', ''labels'', ''enabled''] fs @
           (case map_of fs ''hooks'' of
              Some (JArr ds) \<Rightarrow> [(''hooks'', JArr (map HookDefinition_output ds))]
            | _ \<Rightarrow> []))"
| "HookMatcher_output v = v"

fun matchers_output :: "json \<Rightarrow> json list" where
  "matchers_output (JArr ms) = map HookMatcher_output ms"
| "matchers_output v = []"

text \<open>
  \<^verbatim>\<open>data\<close>, the argument of the transform: \<^verbatim>\<open>data.version\<close> and the entries of
  \<^verbatim>\<open>data.hooks\<close> in the order of \<^verbatim>\<open>Object.entries\<close> (\<^verbatim>\<open>.default({})\<close> when the input has
  no \<^verbatim>\<open>hooks\<close>). The type of a matcher is a parameter: the transform only moves matchers.
\<close>

record 'm HooksData =
  version_d :: "real option"
  hooks_d :: "(string \<times> 'm list) list"

fun HooksConfigSchema_data :: "json \<Rightarrow> json HooksData" where
  "HooksConfigSchema_data (JObj fs) =
     \<lparr>version_d = (case map_of fs ''version'' of Some (JNum n) \<Rightarrow> Some n | _ \<Rightarrow> None),
      hooks_d =
        (case map_of fs ''hooks'' of
           Some (JObj evs) \<Rightarrow>
             map (\<lambda>(event, v). (event, matchers_output v)) (record_entries evs)
         | _ \<Rightarrow> [])\<rparr>"
| "HooksConfigSchema_data v = \<lparr>version_d = None, hooks_d = []\<rparr>"

subsection \<open>The transform: deprecated names, valid names, unknown names\<close>

text \<open>
  \<^verbatim>\<open>DEPRECATED_EVENTS\<close> is an object literal with the one property
  \<^verbatim>\<open>TodoStateChange: 'StatusStateChange'\<close>, and \<^verbatim>\<open>DEPRECATED_EVENTS[event]\<close> is a property
  lookup on it: a name the literal does not have is looked up in \<^verbatim>\<open>Object.prototype\<close>,
  which every object literal inherits from. The lookup so finds either a string of the
  table, or a member of \<^verbatim>\<open>Object.prototype\<close> (a built-in function; for \<^verbatim>\<open>__proto__\<close> the
  prototype object itself), or nothing (\<^verbatim>\<open>undefined\<close>, here \<open>None\<close>).
\<close>

datatype js_value = Str string | Builtin string

definition Object_prototype_names :: "string list" where
  "Object_prototype_names =
     [''constructor'', ''hasOwnProperty'', ''isPrototypeOf'', ''propertyIsEnumerable'',
      ''toLocaleString'', ''toString'', ''valueOf'', ''__proto__'',
      ''__defineGetter__'', ''__defineSetter__'', ''__lookupGetter__'', ''__lookupSetter__'']"

definition DEPRECATED_EVENTS :: "string \<Rightarrow> js_value option" where
  "DEPRECATED_EVENTS event =
     (if event = ''TodoStateChange'' then Some (Str ''StatusStateChange'')
      else if event \<in> set Object_prototype_names then Some (Builtin event)
      else None)"

text \<open>\<^verbatim>\<open>if (renamedTo)\<close>: a non-empty string, a function and an object are truthy.\<close>

fun is_truthy :: "js_value option \<Rightarrow> bool" where
  "is_truthy None = False"
| "is_truthy (Some (Str s)) = (s \<noteq> [])"
| "is_truthy (Some (Builtin n)) = True"

text \<open>
  The string a value becomes as a property key (\<^verbatim>\<open>validHooks[renamedTo]\<close>) and in a
  template literal: a string is itself; a built-in function prints as its native-code
  source text (written here as V8 prints it), the prototype object as
  \<^verbatim>\<open>[object Object]\<close>, and \<^verbatim>\<open>undefined\<close> as its name.
\<close>

fun to_string :: "js_value option \<Rightarrow> string" where
  "to_string None = ''undefined''"
| "to_string (Some (Str s)) = s"
| "to_string (Some (Builtin n)) =
     (if n = ''__proto__'' then ''[object Object]''
      else ''function '' @ (if n = ''constructor'' then ''Object'' else n)
             @ ''() { [native code] }'')"

text \<open>\<^verbatim>\<open>Array.prototype.join\<close> on an array of strings.\<close>

fun join :: "'a list \<Rightarrow> 'a list list \<Rightarrow> 'a list" where
  "join sep [] = []"
| "join sep [x] = x"
| "join sep (x # y # ys) = x @ sep @ join sep (y # ys)"

text \<open>
  The validated configuration: \<^verbatim>\<open>hooks\<close> is the object \<^verbatim>\<open>validHooks\<close>, a map from its keys
  to their matcher lists.
\<close>

record 'm HooksConfig =
  version :: "real option"
  hooks :: "string \<rightharpoonup> 'm list"

text \<open>
  The state of the loop over \<^verbatim>\<open>Object.entries(data.hooks)\<close>: \<^verbatim>\<open>validHooks\<close>,
  \<^verbatim>\<open>invalidEvents\<close>, and the lines written with \<^verbatim>\<open>console.warn\<close> so far.
\<close>

record 'm loop_state =
  validHooks :: "string \<rightharpoonup> 'm list"
  invalidEvents :: "string list"
  warned :: "string list"

text \<open>
  \<^verbatim>\<open>validHooks[key] ?? []\<close>. The keys the loop reads are the text of a renamed event or
  a valid event whose lookup in \<^verbatim>\<open>DEPRECATED_EVENTS\<close> found nothing: none is the name of
  a member of \<^verbatim>\<open>Object.prototype\<close>, so the read finds an own property or
  \<^verbatim>\<open>undefined\<close>.
\<close>

definition accumulated :: "(string \<rightharpoonup> 'm list) \<Rightarrow> string \<Rightarrow> 'm list" where
  "accumulated vh key = (case vh key of None \<Rightarrow> [] | Some ms \<Rightarrow> ms)"

text \<open>
  One iteration of the loop. \<^verbatim>\<open>VALID_EVENTS\<close> is \<^verbatim>\<open>[...APP_EVENTS, ...AGENT_EVENTS]\<close>, both
  imported from \<^verbatim>\<open>./types.ts\<close>: the list is a parameter.
\<close>

definition loop_body ::
  "string list \<Rightarrow> 'm loop_state \<Rightarrow> string \<times> 'm list \<Rightarrow> 'm loop_state" where
  "loop_body VALID_EVENTS st entry =
     (case entry of (event, matchers) \<Rightarrow>
        (let renamedTo = DEPRECATED_EVENTS event
         in if is_truthy renamedTo then
              st\<lparr>warned := warned st @
                    [''[hooks] '' @ dq event @ '' is deprecated, use ''
                       @ dq (to_string renamedTo) @ '' instead''],
                 validHooks := (validHooks st)
                    (to_string renamedTo \<mapsto>
                       accumulated (validHooks st) (to_string renamedTo) @ matchers)\<rparr>
            else if event \<in> set VALID_EVENTS then
              st\<lparr>validHooks := (validHooks st)
                    (event \<mapsto> accumulated (validHooks st) event @ matchers)\<rparr>
            else st\<lparr>invalidEvents := invalidEvents st @ [event]\<rparr>))"

definition HooksConfigSchema_transform ::
  "string list \<Rightarrow> 'm HooksData \<Rightarrow> 'm HooksConfig \<times> string list" where
  "HooksConfigSchema_transform VALID_EVENTS data =
     (let st = foldl (loop_body VALID_EVENTS)
                 \<lparr>validHooks = Map.empty, invalidEvents = [], warned = []\<rparr> (hooks_d data)
      in (\<lparr>version = version_d data, hooks = validHooks st\<rparr>,
          if length (invalidEvents st) > 0
          then warned st @
                 [''[hooks] Unknown event types ignored: '' @ join '', '' (invalidEvents st)]
          else warned st))"

text \<open>
  \<^verbatim>\<open>HooksConfigSchema.safeParse\<close>: the issues of the object schema; when there is none, the
  transform of the parsed value, with the warnings it wrote.
\<close>

definition HooksConfigSchema_safeParse ::
  "string list \<Rightarrow> json \<Rightarrow> ZodError + (json HooksConfig \<times> string list)" where
  "HooksConfigSchema_safeParse VALID_EVENTS raw =
     (if HooksConfigSchema_issues raw \<noteq> []
      then Inl \<lparr>issues = HooksConfigSchema_issues raw\<rparr>
      else Inr (HooksConfigSchema_transform VALID_EVENTS (HooksConfigSchema_data raw)))"

subsection \<open>zodErrorToIssues\<close>

text \<open>\<^verbatim>\<open>issue.path.join('.')\<close>: a key is itself, an index its decimal digits.\<close>

definition digit :: "nat \<Rightarrow> char" where
  "digit d = ''0123456789'' ! d"

fun string_of_nat :: "nat \<Rightarrow> string" where
  "string_of_nat n =
     (if n < 10 then [digit n]
      else string_of_nat (n div 10) @ [digit (n mod 10)])"

declare string_of_nat.simps [simp del]

fun seg_to_string :: "PathSeg \<Rightarrow> string" where
  "seg_to_string (Key k) = k"
| "seg_to_string (Index i) = string_of_nat i"

definition dotted :: "PathSeg list \<Rightarrow> string" where
  "dotted p = join ''.'' (map seg_to_string p)"

definition zodErrorToIssues :: "ZodError \<Rightarrow> string \<Rightarrow> ValidationIssue list" where
  "zodErrorToIssues error f =
     map (\<lambda>issue.
            \<lparr>file_v = f,
             path_v = (if dotted (issue_path issue) = [] then ''root''
                       else dotted (issue_path issue)),
             message_v = issue_message issue,
             severity_v = ''error''\<rparr>)
         (issues error)"

subsection \<open>The matcher index\<close>

text \<open>
  Modelled from the spec: \<^verbatim>\<open>getMatchersForEvent\<close> is a method of \<^verbatim>\<open>HookSystem\<close>
  (\<^verbatim>\<open>hook-system.ts\<close>), which is not among the sources. The spec (4.2): the index is
  built from the validated configuration, and \<^verbatim>\<open>getMatchersForEvent(event)\<close> returns the
  ordered list of matchers of the event, possibly empty, and never fails.
\<close>

definition getMatchersForEvent :: "'m HooksConfig \<Rightarrow> string \<Rightarrow> 'm list" where
  "getMatchersForEvent config event =
     (case hooks config event of None \<Rightarrow> [] | Some ms \<Rightarrow> ms)"

subsection \<open>Notions the properties of the schema are stated with\<close>

text \<open>
  The key of \<^verbatim>\<open>validHooks\<close> an event's matchers are appended to by one iteration of the
  loop, \<open>None\<close> when the event is pushed on \<^verbatim>\<open>invalidEvents\<close> instead.
\<close>

definition filed_under :: "string list \<Rightarrow> string \<Rightarrow> string option" where
  "filed_under VALID_EVENTS event =
     (if is_truthy (DEPRECATED_EVENTS event) then Some (to_string (DEPRECATED_EVENTS event))
      else if event \<in> set VALID_EVENTS then Some event
      else None)"

text \<open>
  A validated matcher is the raw matcher unchanged: it has the raw value under every key
  of the \<^verbatim>\<open>HookMatcher\<close> shape, and its \<^verbatim>\<open>hooks\<close> are the raw definitions, one for
  one and in order, each with the raw value under every key of its variant.
\<close>

definition same_props :: "string list \<Rightarrow> json \<Rightarrow> json \<Rightarrow> bool" where
  "same_props ks raw validated = list_all (\<lambda>k. prop_of validated k = prop_of raw k) ks"

definition unchanged_definition :: "json \<Rightarrow> json \<Rightarrow> bool" where
  "unchanged_definition raw validated =
     (if prop_of raw ''type'' = Some (JStr ''command'')
      then same_props [''type'', ''command'', ''timeout''] raw validated
      else same_props [''type'', ''prompt''] raw validated)"

definition unchanged_matcher :: "json \<Rightarrow> json \<Rightarrow> bool" where
  "unchanged_matcher raw validated =
     (same_props [''matcher'', ''cron'', ''timezone'', ''permissionMode'', ''labels'', ''enabled'']
        raw validated \<and>
      (case prop_of raw ''hooks'' of
         Some (JArr ds) \<Rightarrow>
           (case prop_of validated ''hooks'' of
              Some (JArr ds') \<Rightarrow> list_all2 unchanged_definition ds ds'
            | _ \<Rightarrow> False)
       | _ \<Rightarrow> False))"

text \<open>
  The violations of the \<^verbatim>\<open>HookMatcher\<close> shape that claim C8 lists: a command or prompt
  definition with an empty string, a timeout that is not strictly positive, a
  \<^verbatim>\<open>hooks\<close> list with fewer than one definition.
\<close>

definition bad_definition :: "json \<Rightarrow> bool" where
  "bad_definition d =
     (if prop_of d ''type'' = Some (JStr ''command'') then
        prop_of d ''command'' = Some (JStr []) \<or>
        (case prop_of d ''timeout'' of Some (JNum t) \<Rightarrow> t \<le> 0 | _ \<Rightarrow> False)
      else if prop_of d ''type'' = Some (JStr ''prompt'') then
        prop_of d ''prompt'' = Some (JStr [])
      else False)"

definition violates_HookMatcher :: "json \<Rightarrow> bool" where
  "violates_HookMatcher m =
     (case prop_of m ''hooks'' of
        Some (JArr ds) \<Rightarrow> length ds < 1 \<or> list_ex bad_definition ds
      | _ \<Rightarrow> False)"

text \<open>
  Key \<open>a\<close> is declared before key \<open>b\<close> in a list of entries: \<open>a\<close> is among the keys
  that come before the first \<open>b\<close>.
\<close>

definition declared_before :: "(string \<times> 'v) list \<Rightarrow> string \<Rightarrow> string \<Rightarrow> bool" where
  "declared_before es a b = (a \<in> set (takeWhile (\<lambda>k. k \<noteq> b) (map fst es)))"

section \<open>Session title generator (the second module in hooks-simple/schemas.ts)\<close>

subsection \<open>JavaScript strings\<close>

text \<open>
  A title is measured with \<^verbatim>\<open>.length\<close> and cut with \<^verbatim>\<open>.trim()\<close> and \<^verbatim>\<open>.slice\<close>, which
  work on UTF-16 code units: the strings of this module are lists of 16-bit words.
  \<open>js\<close> is the string of an ASCII literal.
\<close>

type_synonym jsstring = "16 word list"

definition js :: "string \<Rightarrow> jsstring" where
  "js s = map of_char s"

text \<open>
  The code units \<^verbatim>\<open>String.prototype.trim\<close> removes: the WhiteSpace and LineTerminator
  code points of ECMAScript (tab, line feed, vertical tab, form feed, carriage return,
  space, no-break space, the Unicode space separators, line and paragraph separator,
  and the byte order mark).
\<close>

definition isWhiteSpace :: "16 word \<Rightarrow> bool" where
  "isWhiteSpace c =
     (c \<in> set [0x0009, 0x000A, 0x000B, 0x000C, 0x000D, 0x0020, 0x00A0, 0x1680,
                0x2000, 0x2001, 0x2002, 0x2003, 0x2004, 0x2005, 0x2006, 0x2007,
                0x2008, 0x2009, 0x200A, 0x2028, 0x2029, 0x202F, 0x205F, 0x3000, 0xFEFF])"

definition trim :: "jsstring \<Rightarrow> jsstring" where
  "trim s = rev (dropWhile isWhiteSpace (rev (dropWhile isWhiteSpace s)))"


subsection \<open>Options and collaborators\<close>










subsection \<open>generateTitleWithOpenAI\<close>




subsection \<open>generateSessionTitle\<close>








text \<open>
  The rule of claim C9, in the claim's words: a returned text is trimmed, and accepted
  exactly when the trimmed text is not empty and shorter than 100.
\<close>

definition accepted_title :: "jsstring \<Rightarrow> jsstring option" where
  "accepted_title text =
     (if trim text \<noteq> [] \<and> length (trim text) < 100 then Some (trim text) else None)"

section \<open>Session metadata store\<close>

text \<open>
  Modelled from the spec: \<^verbatim>\<open>setInitialSessionMetadata\<close> and \<^verbatim>\<open>updateSessionMetadata\<close> are
  methods of \<^verbatim>\<open>HookSystem\<close> (\<^verbatim>\<open>hook-system.ts\<close>), which is not among the sources; only
  tests call them. The spec (4.3): the store maps a session to its metadata, a mapping of
  field name to value. \<^verbatim>\<open>setInitialSessionMetadata\<close> registers a session's starting state
  without emitting any event. \<^verbatim>\<open>updateSessionMetadata\<close> merges the partial metadata over
  the stored state field by field; for each field whose value actually changed (old
  \<open>\<noteq>\<close> new, including old being unset) it determines the event of the field by a static
  field-to-event mapping and emits it on the event bus with the payload
  \<^verbatim>\<open>{ oldState, newState }\<close>; it returns the names of the events emitted, in the order
  their fields were processed; a field with no mapping produces no event; an unregistered
  session fails with "session not found". The field-to-event mapping is a parameter; the
  event bus is the list of the emissions so far.
\<close>

record Payload =
  oldState :: "string option"
  newState :: string

record HookSystem =
  sessionMetadata :: "string \<rightharpoonup> (string \<rightharpoonup> string)"
  eventBus :: "(string \<times> Payload) list"

datatype session_error = SessionNotFound | SessionAlreadyRegistered

definition setInitialSessionMetadata ::
  "HookSystem \<Rightarrow> string \<Rightarrow> (string \<times> string) list \<Rightarrow> session_error + HookSystem" where
  "setInitialSessionMetadata sys sessionId metadata =
     (case sessionMetadata sys sessionId of
        Some m \<Rightarrow> Inl SessionAlreadyRegistered
      | None \<Rightarrow>
          Inr (sys\<lparr>sessionMetadata := (sessionMetadata sys)(sessionId \<mapsto> map_of metadata)\<rparr>))"

fun merge_fields ::
  "(string \<Rightarrow> string option) \<Rightarrow> (string \<times> string) list \<Rightarrow> (string \<rightharpoonup> string)
     \<Rightarrow> (string \<rightharpoonup> string) \<times> (string \<times> Payload) list" where
  "merge_fields fieldEvent [] stored = (stored, [])"
| "merge_fields fieldEvent ((field, new) # rest) stored =
     (let here = (if stored field = Some new then []
                  else (case fieldEvent field of
                          None \<Rightarrow> []
                        | Some event \<Rightarrow>
                            [(event, \<lparr>oldState = stored field, newState = new\<rparr>)]));
          (stored', later) = merge_fields fieldEvent rest (stored(field \<mapsto> new))
      in (stored', here @ later))"

definition updateSessionMetadata ::
  "(string \<Rightarrow> string option) \<Rightarrow> HookSystem \<Rightarrow> string \<Rightarrow> (string \<times> string) list
     \<Rightarrow> session_error + (string list \<times> HookSystem)" where
  "updateSessionMetadata fieldEvent sys sessionId partialMetadata =
     (case sessionMetadata sys sessionId of
        None \<Rightarrow> Inl SessionNotFound
      | Some stored \<Rightarrow>
         (let (stored', emitted) = merge_fields fieldEvent partialMetadata stored
          in Inr (map fst emitted,
                  sys\<lparr>sessionMetadata := (sessionMetadata sys)(sessionId \<mapsto> stored'),
                      eventBus := eventBus sys @ emitted\<rparr>)))"

section \<open>Properties of the auth environment resolver\<close>

lemma truthy_Some_iff: "truthy v = Some s \<longleftrightarrow> v = Some s \<and> s \<noteq> []"
  by (cases v) auto

lemma truthy_None_iff: "truthy v = None \<longleftrightarrow> v = None \<or> v = Some []"
  by (cases v) auto

text \<open>
  C4. When the billing type is not \<^verbatim>\<open>'bedrock'\<close> and a custom base URL is configured
  (a non-empty string), the result sets \<^verbatim>\<open>ANTHROPIC_BASE_URL\<close> to that URL and
  \<^verbatim>\<open>ANTHROPIC_API_KEY\<close> to the configured key, or to \<^verbatim>\<open>'not-needed'\<close> when no key is
  present (\<^verbatim>\<open>null\<close> or empty), and deletes \<^verbatim>\<open>CLAUDE_CODE_OAUTH_TOKEN\<close>; nothing else is
  set or deleted, no error is reported, and neither the billing type nor an OAuth token
  that is also present changes this.
\<close>

theorem C4_custom_base_url:
  assumes "type_b (billing input) \<noteq> Some ''bedrock''"
    and "customBaseUrl input = Some url" and "url \<noteq> []"
  shows "resolveAuthEnv input =
           \<lparr>set_r = [(''ANTHROPIC_BASE_URL'', url),
                     (''ANTHROPIC_API_KEY'',
                        (case apiKey (billing input) of
                           None \<Rightarrow> ''not-needed''
                         | Some k \<Rightarrow> if k = [] then ''not-needed'' else k))],
            delete_r = [''CLAUDE_CODE_OAUTH_TOKEN''],
            error_r = None\<rparr>"
  using assms
  by (cases "apiKey (billing input)") (simp_all add: resolveAuthEnv_def or_else_def)

theorem C4_custom_base_url_witness:
  "resolveAuthEnv
     \<lparr>billing = \<lparr>type_b = Some ''oauth_token'', hasCredentials = True,
                  apiKey = None, claudeOAuthToken = Some ''oauth-token-123''\<rparr>,
      customBaseUrl = Some ''http://localhost:11434''\<rparr> =
   \<lparr>set_r = [(''ANTHROPIC_BASE_URL'', ''http://localhost:11434''),
             (''ANTHROPIC_API_KEY'', ''not-needed'')],
    delete_r = [''CLAUDE_CODE_OAUTH_TOKEN''],
    error_r = None\<rparr>"
  using C4_custom_base_url
    [of "\<lparr>billing = \<lparr>type_b = Some ''oauth_token'', hasCredentials = True,
                        apiKey = None, claudeOAuthToken = Some ''oauth-token-123''\<rparr>,
            customBaseUrl = Some ''http://localhost:11434''\<rparr>"
        "''http://localhost:11434''"]
  by simp

text \<open>
  C5. No environment-variable name is both a key of the result's \<^verbatim>\<open>set\<close> record and an
  element of its \<^verbatim>\<open>delete\<close> list.
\<close>

theorem C5_set_delete_disjoint:
  "set (set_keys (resolveAuthEnv input)) \<inter> set (delete_r (resolveAuthEnv input)) = {}"
  by (simp add: resolveAuthEnv_def set_keys_def split: option.split)

text \<open>
  C6. When the billing type is not \<^verbatim>\<open>'bedrock'\<close>, no custom base URL is configured, the
  billing mode is not OAuth-token-based with a token present, and no API key is present,
  the result has an empty \<^verbatim>\<open>set\<close>, an empty \<^verbatim>\<open>delete\<close> and the error string
  \<^verbatim>\<open>"No authentication configured"\<close>. The resolver is a total function returning a
  result record: the condition is a value of the \<^verbatim>\<open>error\<close> field, not a raised exception.
\<close>

theorem C6_no_authentication:
  assumes "type_b (billing input) \<noteq> Some ''bedrock''"
    and "truthy (customBaseUrl input) = None"
    and "\<not> (type_b (billing input) = Some ''oauth_token''
            \<and> truthy (claudeOAuthToken (billing input)) \<noteq> None)"
    and "truthy (apiKey (billing input)) = None"
  shows "resolveAuthEnv input =
           \<lparr>set_r = [], delete_r = [], error_r = Some ''No authentication configured''\<rparr>"
  using assms by (auto simp add: resolveAuthEnv_def)

theorem C6_no_authentication_witness:
  "resolveAuthEnv
     \<lparr>billing = \<lparr>type_b = None, hasCredentials = False,
                  apiKey = None, claudeOAuthToken = None\<rparr>,
      customBaseUrl = None\<rparr> =
   \<lparr>set_r = [], delete_r = [], error_r = Some ''No authentication configured''\<rparr>"
  using C6_no_authentication
    [of "\<lparr>billing = \<lparr>type_b = None, hasCredentials = False,
                        apiKey = None, claudeOAuthToken = None\<rparr>,
            customBaseUrl = None\<rparr>"]
  by simp

text \<open>
  C10. Two inputs that differ only in \<^verbatim>\<open>billing.hasCredentials\<close> have equal results:
  the flag is never read.
\<close>

theorem C10_hasCredentials_not_read:
  assumes "type_b (billing i) = type_b (billing j)"
    and "apiKey (billing i) = apiKey (billing j)"
    and "claudeOAuthToken (billing i) = claudeOAuthToken (billing j)"
    and "customBaseUrl i = customBaseUrl j"
  shows "resolveAuthEnv i = resolveAuthEnv j"
  using assms by (simp add: resolveAuthEnv_def cong: option.case_cong if_cong)

theorem C10_hasCredentials_not_read_witness:
  "resolveAuthEnv
     \<lparr>billing = \<lparr>type_b = Some ''api_key'', hasCredentials = True,
                  apiKey = Some ''sk-ant-key'', claudeOAuthToken = None\<rparr>,
      customBaseUrl = None\<rparr> =
   resolveAuthEnv
     \<lparr>billing = \<lparr>type_b = Some ''api_key'', hasCredentials = False,
                  apiKey = Some ''sk-ant-key'', claudeOAuthToken = None\<rparr>,
      customBaseUrl = None\<rparr>"
  using C10_hasCredentials_not_read
    [of "\<lparr>billing = \<lparr>type_b = Some ''api_key'', hasCredentials = True,
                        apiKey = Some ''sk-ant-key'', claudeOAuthToken = None\<rparr>,
            customBaseUrl = None\<rparr>"
        "\<lparr>billing = \<lparr>type_b = Some ''api_key'', hasCredentials = False,
                        apiKey = Some ''sk-ant-key'', claudeOAuthToken = None\<rparr>,
            customBaseUrl = None\<rparr>"]
  by simp

section \<open>Properties of the hooks configuration schema\<close>

subsection \<open>The loop of the transform\<close>

lemma loop_body_validHooks:
  "validHooks (loop_body V st (event, ms)) k =
     (if filed_under V event = Some k
      then Some (accumulated (validHooks st) k @ ms) else validHooks st k)"
  by (auto simp: loop_body_def filed_under_def Let_def)

text \<open>
  After the loop, a key of \<^verbatim>\<open>validHooks\<close> holds what it held before followed by the
  matchers of every entry filed under it, in the order of the entries.
\<close>

lemma loop_validHooks:
  "validHooks (foldl (loop_body V) st es) k =
     (if \<exists>e\<in>set es. filed_under V (fst e) = Some k
      then Some (accumulated (validHooks st) k @
                 concat (map snd (filter (\<lambda>e. filed_under V (fst e) = Some k) es)))
      else validHooks st k)"
proof (induction es arbitrary: st)
  case Nil
  then show ?case by simp
next
  case (Cons e es)
  obtain event ms where e: "e = (event, ms)" by (cases e)
  show ?case
    unfolding e foldl_Cons Cons.IH
    by (auto simp: loop_body_validHooks accumulated_def)
qed

lemma loop_body_invalidEvents:
  "invalidEvents (loop_body V st (event, ms)) =
     (if filed_under V event = None then invalidEvents st @ [event] else invalidEvents st)"
  by (simp add: loop_body_def filed_under_def Let_def)

lemma loop_invalidEvents:
  "invalidEvents (foldl (loop_body V) st es) =
     invalidEvents st @ filter (\<lambda>event. filed_under V event = None) (map fst es)"
proof (induction es arbitrary: st)
  case Nil
  then show ?case by simp
next
  case (Cons e es)
  obtain event ms where e: "e = (event, ms)" by (cases e)
  show ?case
    unfolding e foldl_Cons Cons.IH
    by (auto simp: loop_body_invalidEvents)
qed

lemma filed_under_StatusStateChange:
  assumes "''StatusStateChange'' \<in> set V"
  shows "filed_under V event = Some ''StatusStateChange''
         \<longleftrightarrow> event = ''TodoStateChange'' \<or> event = ''StatusStateChange''"
  using assms
  by (auto simp: filed_under_def DEPRECATED_EVENTS_def Object_prototype_names_def
           split: if_splits)

subsection \<open>Entries with distinct keys\<close>

lemma filter_one_key:
  assumes "distinct (map fst es)" and "(a, A) \<in> set es" and "b \<notin> fst ` set es"
  shows "filter (\<lambda>e. fst e = a \<or> fst e = b) es = [(a, A)]"
  using assms
proof (induction es)
  case Nil
  then show ?case by simp
next
  case (Cons e es)
  show ?case
  proof (cases "e = (a, A)")
    case True
    with Cons.prems have "\<forall>x\<in>set es. fst x \<noteq> a \<and> fst x \<noteq> b"
      by (auto simp: image_iff)
    then have "filter (\<lambda>e. fst e = a \<or> fst e = b) es = []"
      by (auto simp: filter_empty_conv)
    with True show ?thesis by simp
  next
    case False
    with Cons.prems have "(a, A) \<in> set es" by auto
    moreover from this Cons.prems have "fst e \<noteq> a" by (auto simp: image_iff)
    moreover from Cons.prems have "fst e \<noteq> b" by auto
    ultimately show ?thesis using Cons by auto
  qed
qed

lemma filter_two_keys:
  assumes "distinct (map fst es)" and "(a, A) \<in> set es" and "(b, B) \<in> set es" and "a \<noteq> b"
  shows "filter (\<lambda>e. fst e = a \<or> fst e = b) es =
           (if declared_before es a b then [(a, A), (b, B)] else [(b, B), (a, A)])"
  using assms
proof (induction es)
  case Nil
  then show ?case by simp
next
  case (Cons e es)
  have notin: "fst e \<notin> fst ` set es" using Cons.prems(1) by auto
  have ea: "e = (a, A)" if "fst e = a"
  proof (rule ccontr)
    assume "e \<noteq> (a, A)"
    with Cons.prems(2) have "(a, A) \<in> set es" by simp
    then have "fst (a, A) \<in> fst ` set es" by (rule imageI)
    with notin that show False by simp
  qed
  have eb: "e = (b, B)" if "fst e = b"
  proof (rule ccontr)
    assume "e \<noteq> (b, B)"
    with Cons.prems(3) have "(b, B) \<in> set es" by simp
    then have "fst (b, B) \<in> fst ` set es" by (rule imageI)
    with notin that show False by simp
  qed
  consider "e = (a, A)" | "e = (b, B)" | "fst e \<noteq> a" "fst e \<noteq> b"
    using ea eb by blast
  then show ?case
  proof cases
    case 1
    with Cons.prems notin have "(b, B) \<in> set es" "a \<notin> fst ` set es" by auto
    with Cons.prems(1) have "filter (\<lambda>e. fst e = b \<or> fst e = a) es = [(b, B)]"
      by (intro filter_one_key) auto
    then have "filter (\<lambda>e. fst e = a \<or> fst e = b) es = [(b, B)]"
      by (simp add: disj_commute)
    with 1 \<open>a \<noteq> b\<close> show ?thesis by (simp add: declared_before_def)
  next
    case 2
    with Cons.prems notin have "(a, A) \<in> set es" "b \<notin> fst ` set es" by auto
    with Cons.prems(1) have "filter (\<lambda>e. fst e = a \<or> fst e = b) es = [(a, A)]"
      by (intro filter_one_key) auto
    with 2 \<open>a \<noteq> b\<close> show ?thesis by (simp add: declared_before_def)
  next
    case 3
    with Cons.prems have "(a, A) \<in> set es" "(b, B) \<in> set es" "distinct (map fst es)" by auto
    with Cons.IH \<open>a \<noteq> b\<close> have "filter (\<lambda>e. fst e = a \<or> fst e = b) es =
           (if declared_before es a b then [(a, A), (b, B)] else [(b, B), (a, A)])" by simp
    with 3 show ?thesis by (simp add: declared_before_def)
  qed
qed

subsection \<open>The legacy event name in the transform\<close>

lemma transform_legacy_name_only:
  "hooks (fst (HooksConfigSchema_transform VALID_EVENTS
                 \<lparr>version_d = v, hooks_d = [(''TodoStateChange'', A)]\<rparr>))
     = [''StatusStateChange'' \<mapsto> A]"
  by (simp add: HooksConfigSchema_transform_def loop_body_def DEPRECATED_EVENTS_def
        accumulated_def Let_def)

lemma transform_legacy_and_current_name:
  assumes "distinct (map fst es)"
    and "(''TodoStateChange'', A) \<in> set es"
    and "(''StatusStateChange'', B) \<in> set es"
    and "''StatusStateChange'' \<in> set VALID_EVENTS"
  shows "hooks (fst (HooksConfigSchema_transform VALID_EVENTS
                       \<lparr>version_d = v, hooks_d = es\<rparr>)) ''StatusStateChange'' =
           Some (if declared_before es ''TodoStateChange'' ''StatusStateChange''
                 then A @ B else B @ A)"
proof -
  let ?P = "\<lambda>e::string \<times> 'a list. filed_under VALID_EVENTS (fst e) = Some ''StatusStateChange''"
  have P: "?P = (\<lambda>e. fst e = ''TodoStateChange'' \<or> fst e = ''StatusStateChange'')"
    using assms(4) by (simp add: filed_under_StatusStateChange)
  have ex: "\<exists>e\<in>set es. ?P e"
    using assms(3) unfolding P by force
  have "filter ?P es =
          (if declared_before es ''TodoStateChange'' ''StatusStateChange''
           then [(''TodoStateChange'', A), (''StatusStateChange'', B)]
           else [(''StatusStateChange'', B), (''TodoStateChange'', A)])"
    unfolding P using assms(1,2,3) by (intro filter_two_keys) auto
  with ex show ?thesis
    by (auto simp: HooksConfigSchema_transform_def loop_validHooks accumulated_def Let_def)
qed

subsection \<open>From the raw configuration to the validated one\<close>

lemma safeParse_Inr:
  assumes "HooksConfigSchema_safeParse V raw = Inr r"
  shows "HooksConfigSchema_issues raw = []"
    and "r = HooksConfigSchema_transform V (HooksConfigSchema_data raw)"
  using assms by (auto simp: HooksConfigSchema_safeParse_def split: if_splits)

lemma hooks_d_of_raw:
  assumes "prop_of raw ''hooks'' = Some (JObj evs)"
  shows "hooks_d (HooksConfigSchema_data raw) =
           map (\<lambda>(event, v). (event, matchers_output v)) (record_entries evs)"
  using assms by (cases raw) auto

lemma map_of_pick:
  "map_of (pick ks fs) k = (if k \<in> set ks then map_of fs k else None)"
  by (induction ks) (auto simp: pick_def map_add_def split: option.splits)

lemma z_elements_Nil:
  assumes "z_elements schema p xs = []" and "i < length xs"
  shows "schema (p @ [Index i]) (xs ! i) = []"
proof -
  from assms(2) have "(i, xs ! i) \<in> set (enumerate 0 xs)"
    by (simp add: in_set_enumerate_eq)
  with assms(1) show ?thesis
    unfolding z_elements_def by fastforce
qed

text \<open>
  A definition and a matcher that have no issue are unchanged by the parse: stripping
  removes only keys that are not of the shape.
\<close>

lemma valid_definition_unchanged:
  assumes "HookDefinitionSchema p d = []"
  shows "unchanged_definition d (HookDefinition_output d)"
proof -
  from assms obtain fs where d: "d = JObj fs" by (cases d) auto
  from assms have "map_of fs ''type'' = Some (JStr ''command'')
                 \<or> map_of fs ''type'' = Some (JStr ''prompt'')"
    unfolding d by (auto split: option.splits json.splits if_splits)
  then show ?thesis
    unfolding d by (auto simp: unchanged_definition_def same_props_def map_of_pick)
qed

lemma valid_matcher_unchanged:
  assumes "HookMatcherSchema p m = []"
  shows "unchanged_matcher m (HookMatcher_output m)"
proof -
  from assms obtain fs where m: "m = JObj fs" by (cases m) auto
  from assms have h: "required ''array'' z_hooks_min1 (p @ [Key ''hooks'']) (map_of fs ''hooks'') = []"
    unfolding m by simp
  then obtain ds where ds: "map_of fs ''hooks'' = Some (JArr ds)"
    and el: "z_elements HookDefinitionSchema (p @ [Key ''hooks'']) ds = []"
    by (cases "map_of fs ''hooks''"; cases "the (map_of fs ''hooks'')")
       (auto simp: required_def split: if_splits)
  have "list_all2 unchanged_definition ds (map HookDefinition_output ds)"
  proof (rule list_all2_all_nthI)
    show "length ds = length (map HookDefinition_output ds)" by simp
  next
    fix j assume j: "j < length ds"
    from z_elements_Nil [OF el j]
    have "unchanged_definition (ds ! j) (HookDefinition_output (ds ! j))"
      by (rule valid_definition_unchanged)
    with j show "unchanged_definition (ds ! j) (map HookDefinition_output ds ! j)" by simp
  qed
  then show ?thesis
    unfolding m
    by (auto simp: unchanged_matcher_def same_props_def ds map_add_def map_of_pick
          split: option.splits)
qed

lemma valid_matchers_unchanged:
  assumes "HooksConfigSchema_issues raw = []"
    and "prop_of raw ''hooks'' = Some (JObj evs)"
    and "(event, JArr ms) \<in> set evs"
    and "event \<noteq> ''__proto__''"
  shows "list_all2 unchanged_matcher ms (map HookMatcher_output ms)"
proof (rule list_all2_all_nthI)
  show "length ms = length (map HookMatcher_output ms)" by simp
next
  fix i assume i: "i < length ms"
  from assms(2) obtain fs where raw: "raw = JObj fs" and h: "map_of fs ''hooks'' = Some (JObj evs)"
    by (cases raw) auto
  from assms(1) have "z_record_of_matchers [Key ''hooks''] (JObj evs) = []"
    unfolding raw by (simp add: h optional_def)
  moreover from assms(3,4) have "(event, JArr ms) \<in> set (record_entries evs)"
    by (simp add: record_entries_def)
  ultimately have "z_array HookMatcherSchema ([Key ''hooks''] @ [Key event]) (JArr ms) = []"
    by fastforce
  then have "z_elements HookMatcherSchema ([Key ''hooks''] @ [Key event]) ms = []" by simp
  from z_elements_Nil [OF this i]
  have "unchanged_matcher (ms ! i) (HookMatcher_output (ms ! i))"
    by (rule valid_matcher_unchanged)
  with i show "unchanged_matcher (ms ! i) (map HookMatcher_output ms ! i)" by simp
qed

lemma declared_before_record_entries:
  assumes "a \<noteq> ''__proto__''" and "b \<noteq> ''__proto__''"
  shows "declared_before (map (\<lambda>(event, v). (event, f v)) (record_entries es)) a b
         = declared_before es a b"
  using assms
  by (induction es) (auto simp: declared_before_def record_entries_def)

text \<open>
  C1. For every raw configuration that validates and whose only event key is the legacy
  name \<^verbatim>\<open>TodoStateChange\<close>, with matchers \<open>A\<close>: the validated configuration has the
  single key \<^verbatim>\<open>StatusStateChange\<close>; its list is the validated form of \<open>A\<close>, one
  matcher for one and in order, each unchanged (the same value under every key of the
  \<^verbatim>\<open>HookMatcher\<close> shape; the parse strips only keys that are not of the shape);
  \<^verbatim>\<open>getMatchersForEvent\<close> returns that list for the current name and the empty list for
  the legacy name. This holds for every list of valid events.
\<close>

theorem C1_legacy_name_only:
  assumes "HooksConfigSchema_safeParse VALID_EVENTS raw = Inr (config, warnings)"
    and "prop_of raw ''hooks'' = Some (JObj [(''TodoStateChange'', JArr A)])"
  shows "hooks config = [''StatusStateChange'' \<mapsto> map HookMatcher_output A]
       \<and> list_all2 unchanged_matcher A (map HookMatcher_output A)
       \<and> getMatchersForEvent config ''StatusStateChange'' = map HookMatcher_output A
       \<and> length (getMatchersForEvent config ''StatusStateChange'') = length A
       \<and> getMatchersForEvent config ''TodoStateChange'' = []"
proof -
  note sp = safeParse_Inr [OF assms(1)]
  have d: "hooks_d (HooksConfigSchema_data raw) = [(''TodoStateChange'', map HookMatcher_output A)]"
    by (simp add: hooks_d_of_raw [OF assms(2)] record_entries_def)
  have "HooksConfigSchema_data raw =
          \<lparr>version_d = version_d (HooksConfigSchema_data raw),
           hooks_d = [(''TodoStateChange'', map HookMatcher_output A)]\<rparr>"
    using d by (cases "HooksConfigSchema_data raw") simp
  then have "fst (HooksConfigSchema_transform VALID_EVENTS (HooksConfigSchema_data raw)) =
             fst (HooksConfigSchema_transform VALID_EVENTS
                    \<lparr>version_d = version_d (HooksConfigSchema_data raw),
                     hooks_d = [(''TodoStateChange'', map HookMatcher_output A)]\<rparr>)"
    by simp
  moreover from sp(2)
  have "config = fst (HooksConfigSchema_transform VALID_EVENTS (HooksConfigSchema_data raw))"
    by (metis fst_conv)
  ultimately have 1: "hooks config = [''StatusStateChange'' \<mapsto> map HookMatcher_output A]"
    by (simp only: transform_legacy_name_only)
  have "(''TodoStateChange'', JArr A) \<in> set [(''TodoStateChange'', JArr A)]" by simp
  moreover have "''TodoStateChange'' \<noteq> ''__proto__''" by simp
  ultimately have 2: "list_all2 unchanged_matcher A (map HookMatcher_output A)"
    by (rule valid_matchers_unchanged [OF sp(1) assms(2)])
  from 1 2 show ?thesis
    by (simp add: getMatchersForEvent_def)
qed

theorem C1_legacy_name_only_witness:
  "\<exists>config warnings.
     HooksConfigSchema_safeParse [''StatusStateChange'']
       (JObj [(''hooks'', JObj [(''TodoStateChange'',
          JArr [JObj [(''note'', JStr ''not of the shape''),
                      (''matcher'', JStr ''done''),
                      (''hooks'', JArr [JObj [(''type'', JStr ''command''),
                                              (''command'', JStr ''echo done'')]])]])])])
       = Inr (config, warnings)
   \<and> getMatchersForEvent config ''StatusStateChange'' =
         [JObj [(''matcher'', JStr ''done''),
                (''hooks'', JArr [JObj [(''type'', JStr ''command''),
                                        (''command'', JStr ''echo done'')]])]]
   \<and> getMatchersForEvent config ''TodoStateChange'' = []"
proof -
  let ?A = "[JObj [(''note'', JStr ''not of the shape''),
                   (''matcher'', JStr ''done''),
                   (''hooks'', JArr [JObj [(''type'', JStr ''command''),
                                           (''command'', JStr ''echo done'')]])]]"
  let ?raw = "JObj [(''hooks'', JObj [(''TodoStateChange'', JArr ?A)])]"
  obtain config warnings
    where sp: "HooksConfigSchema_safeParse [''StatusStateChange''] ?raw = Inr (config, warnings)"
    by (cases "HooksConfigSchema_transform [''StatusStateChange''] (HooksConfigSchema_data ?raw)")
       (simp add: HooksConfigSchema_safeParse_def optional_def required_def z_elements_def
          CommandHookSchema_def record_entries_def)
  have h: "prop_of ?raw ''hooks'' = Some (JObj [(''TodoStateChange'', JArr ?A)])" by simp
  from C1_legacy_name_only [OF sp h]
  have "getMatchersForEvent config ''StatusStateChange'' =
         [JObj [(''matcher'', JStr ''done''),
                (''hooks'', JArr [JObj [(''type'', JStr ''command''),
                                        (''command'', JStr ''echo done'')]])]]
      \<and> getMatchersForEvent config ''TodoStateChange'' = []"
    by (simp add: pick_def)
  with sp show ?thesis by blast
qed

text \<open>
  C2. For every raw configuration that validates and whose \<^verbatim>\<open>hooks\<close> object (its keys
  are distinct) has the legacy key \<^verbatim>\<open>TodoStateChange\<close> with matchers \<open>A\<close> and the
  current key \<^verbatim>\<open>StatusStateChange\<close> with matchers \<open>B\<close>, \<^verbatim>\<open>StatusStateChange\<close> being a
  valid event: the validated list for \<^verbatim>\<open>StatusStateChange\<close> has length \<open>|A| + |B|\<close> and
  is the concatenation of the two lists in the order the keys are declared in the raw
  input (\<open>A\<close> then \<open>B\<close> when the legacy key comes first, \<open>B\<close> then \<open>A\<close> otherwise),
  every raw matcher of both being there, unchanged, at its place. Other keys of the input
  do not change this.
\<close>

theorem C2_legacy_and_current_name:
  assumes "HooksConfigSchema_safeParse VALID_EVENTS raw = Inr (config, warnings)"
    and "prop_of raw ''hooks'' = Some (JObj evs)"
    and "distinct (map fst evs)"
    and "(''TodoStateChange'', JArr A) \<in> set evs"
    and "(''StatusStateChange'', JArr B) \<in> set evs"
    and "''StatusStateChange'' \<in> set VALID_EVENTS"
  shows "\<exists>ms. hooks config ''StatusStateChange'' = Some ms
            \<and> ms = map HookMatcher_output
                      (if declared_before evs ''TodoStateChange'' ''StatusStateChange''
                       then A @ B else B @ A)
            \<and> list_all2 unchanged_matcher
                  (if declared_before evs ''TodoStateChange'' ''StatusStateChange''
                   then A @ B else B @ A) ms
            \<and> length ms = length A + length B"
proof -
  note sp = safeParse_Inr [OF assms(1)]
  let ?es = "map (\<lambda>(event, v). (event, matchers_output v)) (record_entries evs)"
  have d: "hooks_d (HooksConfigSchema_data raw) = ?es"
    by (rule hooks_d_of_raw [OF assms(2)])
  have fst_es: "map fst ?es = map fst (record_entries evs)"
    by (simp add: case_prod_unfold comp_def)
  have "distinct (map fst (record_entries evs))"
    using assms(3) unfolding record_entries_def by (rule distinct_map_filter)
  then have dist: "distinct (map fst ?es)" by (simp only: fst_es)
  have inA: "(''TodoStateChange'', map HookMatcher_output A) \<in> set ?es"
    using assms(4) by (force simp: record_entries_def)
  have inB: "(''StatusStateChange'', map HookMatcher_output B) \<in> set ?es"
    using assms(5) by (force simp: record_entries_def)
  have db: "declared_before ?es ''TodoStateChange'' ''StatusStateChange''
            = declared_before evs ''TodoStateChange'' ''StatusStateChange''"
    by (rule declared_before_record_entries) simp_all
  have "HooksConfigSchema_data raw =
          \<lparr>version_d = version_d (HooksConfigSchema_data raw), hooks_d = ?es\<rparr>"
    using d by (cases "HooksConfigSchema_data raw") simp
  then have "fst (HooksConfigSchema_transform VALID_EVENTS (HooksConfigSchema_data raw)) =
             fst (HooksConfigSchema_transform VALID_EVENTS
                    \<lparr>version_d = version_d (HooksConfigSchema_data raw), hooks_d = ?es\<rparr>)"
    by simp
  moreover from sp(2)
  have "config = fst (HooksConfigSchema_transform VALID_EVENTS (HooksConfigSchema_data raw))"
    by (metis fst_conv)
  ultimately have "hooks config ''StatusStateChange'' =
             Some (if declared_before ?es ''TodoStateChange'' ''StatusStateChange''
                   then map HookMatcher_output A @ map HookMatcher_output B
                   else map HookMatcher_output B @ map HookMatcher_output A)"
    by (simp only: transform_legacy_and_current_name [OF dist inA inB assms(6)])
  then have 1: "hooks config ''StatusStateChange'' =
             Some (if declared_before evs ''TodoStateChange'' ''StatusStateChange''
                   then map HookMatcher_output A @ map HookMatcher_output B
                   else map HookMatcher_output B @ map HookMatcher_output A)"
    by (simp only: db)
  have "''TodoStateChange'' \<noteq> ''__proto__''" by simp
  with assms(4) have uA: "list_all2 unchanged_matcher A (map HookMatcher_output A)"
    by (rule valid_matchers_unchanged [OF sp(1) assms(2)])
  have "''StatusStateChange'' \<noteq> ''__proto__''" by simp
  with assms(5) have uB: "list_all2 unchanged_matcher B (map HookMatcher_output B)"
    by (rule valid_matchers_unchanged [OF sp(1) assms(2)])
  from 1 uA uB show ?thesis
    by (auto intro: list_all2_appendI)
qed

theorem C2_legacy_and_current_name_witness:
  "\<exists>config warnings.
     HooksConfigSchema_safeParse [''LabelAdd'', ''StatusStateChange'']
       (JObj [(''hooks'', JObj
          [(''StatusStateChange'',
              JArr [JObj [(''matcher'', JStr ''in_progress''),
                          (''hooks'', JArr [JObj [(''type'', JStr ''command''),
                                                  (''command'', JStr ''echo new'')]])]]),
           (''LabelAdd'',
              JArr [JObj [(''hooks'', JArr [JObj [(''type'', JStr ''prompt''),
                                                  (''prompt'', JStr ''Summarise'')]])]]),
           (''TodoStateChange'',
              JArr [JObj [(''matcher'', JStr ''done''),
                          (''hooks'', JArr [JObj [(''type'', JStr ''command''),
                                                  (''command'', JStr ''echo legacy'')]])]])])])
       = Inr (config, warnings)
   \<and> hooks config ''StatusStateChange'' =
       Some [JObj [(''matcher'', JStr ''in_progress''),
                   (''hooks'', JArr [JObj [(''type'', JStr ''command''),
                                           (''command'', JStr ''echo new'')]])],
             JObj [(''matcher'', JStr ''done''),
                   (''hooks'', JArr [JObj [(''type'', JStr ''command''),
                                           (''command'', JStr ''echo legacy'')]])]]"
proof -
  let ?A = "[JObj [(''matcher'', JStr ''done''),
                   (''hooks'', JArr [JObj [(''type'', JStr ''command''),
                                           (''command'', JStr ''echo legacy'')]])]]"
  let ?B = "[JObj [(''matcher'', JStr ''in_progress''),
                   (''hooks'', JArr [JObj [(''type'', JStr ''command''),
                                           (''command'', JStr ''echo new'')]])]]"
  let ?evs = "[(''StatusStateChange'', JArr ?B),
               (''LabelAdd'',
                  JArr [JObj [(''hooks'', JArr [JObj [(''type'', JStr ''prompt''),
                                                      (''prompt'', JStr ''Summarise'')]])]]),
               (''TodoStateChange'', JArr ?A)]"
  let ?raw = "JObj [(''hooks'', JObj ?evs)]"
  let ?V = "[''LabelAdd'', ''StatusStateChange'']"
  obtain config warnings
    where sp: "HooksConfigSchema_safeParse ?V ?raw = Inr (config, warnings)"
    by (cases "HooksConfigSchema_transform ?V (HooksConfigSchema_data ?raw)")
       (simp add: HooksConfigSchema_safeParse_def optional_def required_def z_elements_def
          CommandHookSchema_def PromptHookSchema_def record_entries_def)
  have h: "prop_of ?raw ''hooks'' = Some (JObj ?evs)" by simp
  have dist: "distinct (map fst ?evs)" by simp
  have inA: "(''TodoStateChange'', JArr ?A) \<in> set ?evs" by simp
  have inB: "(''StatusStateChange'', JArr ?B) \<in> set ?evs" by simp
  have v: "''StatusStateChange'' \<in> set ?V" by simp
  from C2_legacy_and_current_name [OF sp h dist inA inB v]
  have "hooks config ''StatusStateChange'' = Some (map HookMatcher_output (?B @ ?A))"
    by (simp add: declared_before_def)
  then have "hooks config ''StatusStateChange'' = Some (?B @ ?A)"
    by (simp add: pick_def)
  with sp show ?thesis by auto
qed

subsection \<open>Unknown event names\<close>

text \<open>
  A key that is the name of a member of \<^verbatim>\<open>Object.prototype\<close> is found by the lookup in
  \<^verbatim>\<open>DEPRECATED_EVENTS\<close>: the loop takes the first branch, writes a deprecation warning and
  files the matchers under the text of the inherited member.
\<close>

lemma inherited_name_is_filed:
  "HooksConfigSchema_transform VALID_EVENTS
     \<lparr>version_d = v, hooks_d = [(''constructor'', ms)]\<rparr> =
   (\<lparr>version = v, hooks = [''function Object() { [native code] }'' \<mapsto> ms]\<rparr>,
    [''[hooks] '' @ dq ''constructor'' @ '' is deprecated, use ''
       @ dq ''function Object() { [native code] }'' @ '' instead''])"
  by (simp add: HooksConfigSchema_transform_def loop_body_def DEPRECATED_EVENTS_def
        Object_prototype_names_def accumulated_def Let_def)

text \<open>
  When no key of the input is the name of a member of \<^verbatim>\<open>Object.prototype\<close> (and
  \<^verbatim>\<open>StatusStateChange\<close> is a valid event), a key that is neither deprecated nor valid is
  absent from the validated mapping, and the last warning lists all such keys.
\<close>

lemma filed_under_own_name:
  assumes "k \<notin> set Object_prototype_names"
  shows "filed_under V k =
           (if k = ''TodoStateChange'' then Some ''StatusStateChange''
            else if k \<in> set V then Some k else None)"
  using assms by (simp add: filed_under_def DEPRECATED_EVENTS_def)

lemma unknown_names_dropped:
  assumes "\<forall>e\<in>set es. fst e \<notin> set Object_prototype_names"
    and "''StatusStateChange'' \<in> set V"
    and "event \<in> fst ` set es" and "event \<noteq> ''TodoStateChange''" and "event \<notin> set V"
  shows "hooks (fst (HooksConfigSchema_transform V \<lparr>version_d = v, hooks_d = es\<rparr>)) event = None
       \<and> (\<exists>ws. snd (HooksConfigSchema_transform V \<lparr>version_d = v, hooks_d = es\<rparr>) =
               ws @ [''[hooks] Unknown event types ignored: '' @
                       join '', '' (filter (\<lambda>k. k \<noteq> ''TodoStateChange'' \<and> k \<notin> set V)
                                      (map fst es))])
       \<and> event \<in> set (filter (\<lambda>k. k \<noteq> ''TodoStateChange'' \<and> k \<notin> set V) (map fst es))"
proof -
  let ?st = "foldl (loop_body V) \<lparr>validHooks = Map.empty, invalidEvents = [], warned = []\<rparr> es"
  have own: "filed_under V k =
           (if k = ''TodoStateChange'' then Some ''StatusStateChange''
            else if k \<in> set V then Some k else None)" if "k \<in> set (map fst es)" for k
    using assms(1) that by (intro filed_under_own_name) auto
  have "filed_under V (fst e) \<noteq> Some event" if "e \<in> set es" for e
  proof -
    from that have "fst e \<in> set (map fst es)" by simp
    from own [OF this] assms(2,5) show ?thesis by (auto split: if_splits)
  qed
  then have 1: "validHooks ?st event = None"
    by (simp add: loop_validHooks)
  have "filter (\<lambda>k. filed_under V k = None) (map fst es) =
        filter (\<lambda>k. k \<noteq> ''TodoStateChange'' \<and> k \<notin> set V) (map fst es)"
    by (rule filter_cong) (simp_all add: own)
  then have inv: "invalidEvents ?st =
        filter (\<lambda>k. k \<noteq> ''TodoStateChange'' \<and> k \<notin> set V) (map fst es)"
    by (simp add: loop_invalidEvents)
  from assms(3,4,5)
  have 3: "event \<in> set (filter (\<lambda>k. k \<noteq> ''TodoStateChange'' \<and> k \<notin> set V) (map fst es))"
    by auto
  then have "filter (\<lambda>k. k \<noteq> ''TodoStateChange'' \<and> k \<notin> set V) (map fst es) \<noteq> []"
    by (metis empty_iff list.set(1))
  with inv have "invalidEvents ?st \<noteq> []" by simp
  with inv have 2: "snd (HooksConfigSchema_transform V \<lparr>version_d = v, hooks_d = es\<rparr>) =
               warned ?st @ [''[hooks] Unknown event types ignored: '' @
                       join '', '' (filter (\<lambda>k. k \<noteq> ''TodoStateChange'' \<and> k \<notin> set V)
                                      (map fst es))]"
    by (simp add: HooksConfigSchema_transform_def Let_def)
  from 1 2 3 show ?thesis
    by (simp add: HooksConfigSchema_transform_def Let_def)
qed

text \<open>
  C7 (what the code does at the failing input). The configuration
  \<^verbatim>\<open>{"hooks": {"toString": [{"hooks": [{"type": "command", "command": "echo x"}]}]}}\<close>
  is valid for the schema. Its key \<^verbatim>\<open>toString\<close> is neither in the deprecation table nor a
  valid event, for any list of valid events, yet its matcher is not dropped: it is in
  the validated mapping, under a key that is no event, and the only warning is a
  deprecation warning; no warning lists \<^verbatim>\<open>toString\<close> as unknown.
\<close>

theorem C7_inherited_name_not_dropped:
  "HooksConfigSchema_safeParse VALID_EVENTS
     (JObj [(''hooks'', JObj [(''toString'',
        JArr [JObj [(''hooks'', JArr [JObj [(''type'', JStr ''command''),
                                            (''command'', JStr ''echo x'')]])]])])]) =
   Inr (\<lparr>version = None,
         hooks = [''function toString() { [native code] }'' \<mapsto>
                    [JObj [(''hooks'', JArr [JObj [(''type'', JStr ''command''),
                                                   (''command'', JStr ''echo x'')]])]]]\<rparr>,
        [''[hooks] '' @ dq ''toString'' @ '' is deprecated, use ''
           @ dq ''function toString() { [native code] }'' @ '' instead''])"
  by (simp add: HooksConfigSchema_safeParse_def HooksConfigSchema_transform_def
        loop_body_def DEPRECATED_EVENTS_def Object_prototype_names_def accumulated_def
        optional_def required_def z_elements_def CommandHookSchema_def pick_def Let_def
        record_entries_def)

subsection \<open>Validation failures\<close>

lemma z_elements_mem:
  assumes "i < length xs" and "x \<in> set (schema (p @ [Index i]) (xs ! i))"
  shows "x \<in> set (z_elements schema p xs)"
proof -
  from assms(1) have "(i, xs ! i) \<in> set (enumerate 0 xs)"
    by (simp add: in_set_enumerate_eq)
  with assms(2) show ?thesis
    unfolding z_elements_def by force
qed

lemma bad_definition_issue:
  assumes "bad_definition d"
  shows "\<exists>x\<in>set (HookDefinitionSchema p d). \<exists>q. issue_path x = p @ q"
proof -
  from assms obtain fs where d: "d = JObj fs"
    by (cases d) (auto simp: bad_definition_def)
  from assms show ?thesis
    unfolding d
    by (auto simp: bad_definition_def CommandHookSchema_def PromptHookSchema_def
          required_def optional_def
          split: if_splits option.splits json.splits)
qed

lemma violates_HookMatcher_issue:
  assumes "violates_HookMatcher m"
  shows "\<exists>x\<in>set (HookMatcherSchema p m). \<exists>q. issue_path x = p @ [Key ''hooks''] @ q"
proof -
  from assms obtain fs ds where m: "m = JObj fs" and h: "map_of fs ''hooks'' = Some (JArr ds)"
    and v: "length ds < 1 \<or> list_ex bad_definition ds"
    by (cases m) (auto simp: violates_HookMatcher_def split: option.splits json.splits)
  have "\<exists>x\<in>set (z_hooks_min1 (p @ [Key ''hooks'']) (JArr ds)).
          \<exists>q. issue_path x = p @ [Key ''hooks''] @ q"
  proof (cases "length ds < 1")
    case True
    then show ?thesis by auto
  next
    case False
    with v obtain j where j: "j < length ds" and bad: "bad_definition (ds ! j)"
      by (auto simp: list_ex_iff in_set_conv_nth)
    from bad_definition_issue [OF bad, of "(p @ [Key ''hooks'']) @ [Index j]"]
    obtain x q where x: "x \<in> set (HookDefinitionSchema ((p @ [Key ''hooks'']) @ [Index j]) (ds ! j))"
      and q: "issue_path x = ((p @ [Key ''hooks'']) @ [Index j]) @ q"
      by blast
    from j x have "x \<in> set (z_elements HookDefinitionSchema (p @ [Key ''hooks'']) ds)"
      by (rule z_elements_mem)
    then have "x \<in> set (z_hooks_min1 (p @ [Key ''hooks'']) (JArr ds))" by simp
    with q show ?thesis by auto
  qed
  then show ?thesis
    unfolding m by (auto simp: h required_def)
qed

lemma HooksConfigSchema_issue:
  assumes "prop_of raw ''hooks'' = Some (JObj evs)"
    and "(event, JArr ms) \<in> set evs"
    and "event \<noteq> ''__proto__''"
    and "i < length ms"
    and "violates_HookMatcher (ms ! i)"
  shows "\<exists>x\<in>set (HooksConfigSchema_issues raw).
           \<exists>q. issue_path x = [Key ''hooks'', Key event, Index i, Key ''hooks''] @ q"
proof -
  from assms(1) obtain fs where raw: "raw = JObj fs" and h: "map_of fs ''hooks'' = Some (JObj evs)"
    by (cases raw) auto
  from violates_HookMatcher_issue [OF assms(5), of "([Key ''hooks''] @ [Key event]) @ [Index i]"]
  obtain x q where x: "x \<in> set (HookMatcherSchema (([Key ''hooks''] @ [Key event]) @ [Index i]) (ms ! i))"
    and q: "issue_path x = [Key ''hooks'', Key event, Index i, Key ''hooks''] @ q"
    by auto
  from assms(4) x
  have "x \<in> set (z_elements HookMatcherSchema ([Key ''hooks''] @ [Key event]) ms)"
    by (rule z_elements_mem)
  then have "x \<in> set (z_array HookMatcherSchema ([Key ''hooks''] @ [Key event]) (JArr ms))"
    by simp
  moreover from assms(2,3) have "(event, JArr ms) \<in> set (record_entries evs)"
    by (simp add: record_entries_def)
  ultimately have "x \<in> set (z_record_of_matchers [Key ''hooks''] (JObj evs))"
    by force
  then have "x \<in> set (HooksConfigSchema_issues raw)"
    unfolding raw by (simp add: h optional_def)
  with q show ?thesis by blast
qed

lemma join_append:
  "xs \<noteq> [] \<Longrightarrow> \<exists>rest. join sep (xs @ ys) = join sep xs @ rest"
proof (induction sep xs rule: join.induct)
  case (1 sep)
  then show ?case by simp
next
  case (2 sep x)
  then show ?case by (cases ys) auto
next
  case (3 sep x y ys')
  then show ?case by auto
qed

lemma dotted_matcher_path:
  "\<exists>rest. dotted ([Key ''hooks'', Key event, Index i, Key ''hooks''] @ q) =
      ''hooks.'' @ event @ ''.'' @ string_of_nat i @ ''.hooks'' @ rest"
proof -
  have "\<exists>rest. join ''.'' (map seg_to_string [Key ''hooks'', Key event, Index i, Key ''hooks'']
                         @ map seg_to_string q) =
          join ''.'' (map seg_to_string [Key ''hooks'', Key event, Index i, Key ''hooks'']) @ rest"
    by (rule join_append) simp
  then show ?thesis by (simp add: dotted_def)
qed

text \<open>
  C8 as stated fails at a matcher under the key \<^verbatim>\<open>__proto__\<close>: the record schema skips
  that key without parsing its value, so the configuration
  \<^verbatim>\<open>{"hooks": {"__proto__": [{"hooks": []}]}}\<close>, whose one matcher has an empty
  \<^verbatim>\<open>hooks\<close> list, validates, to the empty configuration and with no warning.
\<close>

theorem C8_proto_key_counterexample:
  "violates_HookMatcher (JObj [(''hooks'', JArr [])])
   \<and> HooksConfigSchema_safeParse [''StatusStateChange'']
        (JObj [(''hooks'', JObj [(''__proto__'', JArr [JObj [(''hooks'', JArr [])]])])]) =
      Inr (\<lparr>version = None, hooks = Map.empty\<rparr>, [])"
  by (simp add: violates_HookMatcher_def HooksConfigSchema_safeParse_def
        HooksConfigSchema_transform_def optional_def record_entries_def)

text \<open>
  C8, amended. When a matcher of the raw configuration (the \<open>i\<close>-th matcher of an event
  whose key is not \<^verbatim>\<open>__proto__\<close>) violates the \<^verbatim>\<open>HookMatcher\<close> shape in one of the listed
  ways (a command or prompt definition with an empty string, a timeout that is not
  strictly positive, a \<^verbatim>\<open>hooks\<close> list with fewer than one definition), \<^verbatim>\<open>safeParse\<close> of
  the whole configuration fails: its result is the error and no configuration, whatever
  the other events and matchers are. \<^verbatim>\<open>zodErrorToIssues\<close> turns the error into at least
  one issue; every issue has the file, the severity \<^verbatim>\<open>error\<close>, a message and a non-empty
  dotted path; and one of them has a path that starts at the \<^verbatim>\<open>hooks\<close> of the offending
  matcher, \<^verbatim>\<open>hooks.<event>.<i>.hooks\<close>.
\<close>

theorem C8_violation_fails_whole_file:
  assumes "prop_of raw ''hooks'' = Some (JObj evs)"
    and "(event, JArr ms) \<in> set evs"
    and "event \<noteq> ''__proto__''"
    and "i < length ms"
    and "violates_HookMatcher (ms ! i)"
  shows "\<exists>err. HooksConfigSchema_safeParse VALID_EVENTS raw = Inl err
           \<and> zodErrorToIssues err f \<noteq> []
           \<and> (\<forall>v\<in>set (zodErrorToIssues err f).
                  file_v v = f \<and> severity_v v = ''error'' \<and> path_v v \<noteq> [])
           \<and> (\<exists>v\<in>set (zodErrorToIssues err f). \<exists>rest.
                  path_v v = ''hooks.'' @ event @ ''.'' @ string_of_nat i @ ''.hooks'' @ rest)"
proof -
  from HooksConfigSchema_issue [OF assms]
  obtain x q where x: "x \<in> set (HooksConfigSchema_issues raw)"
    and q: "issue_path x = [Key ''hooks'', Key event, Index i, Key ''hooks''] @ q"
    by blast
  from dotted_matcher_path [of event i q]
  obtain rest where rest: "dotted (issue_path x) =
      ''hooks.'' @ event @ ''.'' @ string_of_nat i @ ''.hooks'' @ rest"
    unfolding q by blast
  let ?err = "\<lparr>issues = HooksConfigSchema_issues raw\<rparr>"
  from x have ne: "HooksConfigSchema_issues raw \<noteq> []" by auto
  then have 1: "HooksConfigSchema_safeParse VALID_EVENTS raw = Inl ?err"
    by (simp add: HooksConfigSchema_safeParse_def)
  from ne have 2: "zodErrorToIssues ?err f \<noteq> []"
    by (simp add: zodErrorToIssues_def)
  have 3: "\<forall>v\<in>set (zodErrorToIssues ?err f).
             file_v v = f \<and> severity_v v = ''error'' \<and> path_v v \<noteq> []"
    by (auto simp: zodErrorToIssues_def)
  let ?v = "\<lparr>file_v = f, path_v = dotted (issue_path x),
              message_v = issue_message x, severity_v = ''error''\<rparr>"
  from x rest have "?v \<in> set (zodErrorToIssues ?err f)"
    by (force simp: zodErrorToIssues_def image_iff)
  with rest have 4: "\<exists>v\<in>set (zodErrorToIssues ?err f). \<exists>rest.
                  path_v v = ''hooks.'' @ event @ ''.'' @ string_of_nat i @ ''.hooks'' @ rest"
    by (intro bexI [of _ ?v]) auto
  from 1 2 3 4 show ?thesis by blast
qed

theorem C8_violation_fails_whole_file_witness:
  "violates_HookMatcher
     (JObj [(''hooks'', JArr [JObj [(''type'', JStr ''command''),
                                     (''command'', JStr []),
                                     (''timeout'', JNum 30)]])])
   \<and> (\<exists>err. HooksConfigSchema_safeParse [''StatusStateChange'']
            (JObj [(''version'', JNum 1),
                   (''hooks'', JObj [(''StatusStateChange'',
                      JArr [JObj [(''matcher'', JStr ''done''),
                                  (''hooks'', JArr [JObj [(''type'', JStr ''command''),
                                                          (''command'', JStr ''echo done'')]])],
                            JObj [(''hooks'', JArr [JObj [(''type'', JStr ''command''),
                                                          (''command'', JStr []),
                                                          (''timeout'', JNum 30)]])]])])]) = Inl err
      \<and> zodErrorToIssues err ''hooks.json'' =
          [\<lparr>file_v = ''hooks.json'', path_v = ''hooks.StatusStateChange.1.hooks.0.command'',
            message_v = ''Command cannot be empty'', severity_v = ''error''\<rparr>])"
  using C8_violation_fails_whole_file
    [of "JObj [(''version'', JNum 1),
                   (''hooks'', JObj [(''StatusStateChange'',
                      JArr [JObj [(''matcher'', JStr ''done''),
                                  (''hooks'', JArr [JObj [(''type'', JStr ''command''),
                                                          (''command'', JStr ''echo done'')]])],
                            JObj [(''hooks'', JArr [JObj [(''type'', JStr ''command''),
                                                          (''command'', JStr []),
                                                          (''timeout'', JNum 30)]])]])])]"
        "[(''StatusStateChange'',
                      JArr [JObj [(''matcher'', JStr ''done''),
                                  (''hooks'', JArr [JObj [(''type'', JStr ''command''),
                                                          (''command'', JStr ''echo done'')]])],
                            JObj [(''hooks'', JArr [JObj [(''type'', JStr ''command''),
                                                          (''command'', JStr []),
                                                          (''timeout'', JNum 30)]])]])]"
        "''StatusStateChange''"
        "[JObj [(''matcher'', JStr ''done''),
                                  (''hooks'', JArr [JObj [(''type'', JStr ''command''),
                                                          (''command'', JStr ''echo done'')]])],
                            JObj [(''hooks'', JArr [JObj [(''type'', JStr ''command''),
                                                          (''command'', JStr []),
                                                          (''timeout'', JNum 30)]])]]"
        1 "[''StatusStateChange'']" "''hooks.json''"]
  by (simp add: violates_HookMatcher_def bad_definition_def HooksConfigSchema_safeParse_def
        zodErrorToIssues_def optional_def required_def z_elements_def CommandHookSchema_def
        dotted_def string_of_nat.simps digit_def record_entries_def)

section \<open>Properties of the session title generator\<close>



text \<open>
  The rule at its bounds: 99 code units between white space are accepted, trimmed; 100
  code units are refused; white space alone is refused.
\<close>

lemma title_length_boundary:
  "accepted_title (js ''  '' @ replicate 99 0x41 @ js [CHR 0x0A]) = Some (replicate 99 0x41)
   \<and> accepted_title (replicate 100 0x41) = None
   \<and> accepted_title (js ''   '') = None"
  by code_simp


section \<open>Properties of the session metadata store\<close>

lemma merge_fields_unchanged:
  "\<forall>(f, v)\<in>set partial. stored f = Some v \<Longrightarrow> merge_fields fe partial stored = (stored, [])"
proof (induction partial arbitrary: stored)
  case Nil
  then show ?case by simp
next
  case (Cons p partial)
  obtain f v where p: "p = (f, v)" by (cases p)
  with Cons.prems have fv: "stored f = Some v" by simp
  then have same: "stored(f \<mapsto> v) = stored" by (rule map_upd_triv)
  from Cons.prems have "\<forall>(f, v)\<in>set partial. stored f = Some v" by simp
  then have "merge_fields fe partial stored = (stored, [])" by (rule Cons.IH)
  with fv same show ?case by (simp add: p)
qed

text \<open>
  With distinct fields, every field is compared with the value stored before the call.
\<close>

lemma merge_fields_emitted:
  "distinct (map fst partial) \<Longrightarrow>
   snd (merge_fields fe partial stored) =
     concat (map (\<lambda>(f, v). if stored f = Some v then []
                             else (case fe f of
                                     None \<Rightarrow> []
                                   | Some ev \<Rightarrow> [(ev, \<lparr>oldState = stored f, newState = v\<rparr>)]))
                 partial)"
proof (induction partial arbitrary: stored)
  case Nil
  then show ?case by simp
next
  case (Cons p partial)
  obtain f v where p: "p = (f, v)" by (cases p)
  from Cons.prems p have d: "distinct (map fst partial)" and nf: "f \<notin> fst ` set partial"
    by auto
  have same: "(stored(f \<mapsto> v)) g = stored g" if "(g, u) \<in> set partial" for g u
  proof -
    from that have "fst (g, u) \<in> fst ` set partial" by (rule imageI)
    with nf have "g \<noteq> f" by auto
    then show ?thesis by simp
  qed
  have eq: "map (\<lambda>(g, u). if (stored(f \<mapsto> v)) g = Some u then []
                             else (case fe g of
                                     None \<Rightarrow> []
                                   | Some ev \<Rightarrow> [(ev, \<lparr>oldState = (stored(f \<mapsto> v)) g, newState = u\<rparr>)]))
                 partial =
        map (\<lambda>(g, u). if stored g = Some u then []
                             else (case fe g of
                                     None \<Rightarrow> []
                                   | Some ev \<Rightarrow> [(ev, \<lparr>oldState = stored g, newState = u\<rparr>)]))
                 partial"
    by (rule map_cong) (auto simp: same simp del: fun_upd_apply split: option.splits)
  have "snd (merge_fields fe partial (stored(f \<mapsto> v))) =
        concat (map (\<lambda>(g, u). if stored g = Some u then []
                             else (case fe g of
                                     None \<Rightarrow> []
                                   | Some ev \<Rightarrow> [(ev, \<lparr>oldState = stored g, newState = u\<rparr>)]))
                 partial)"
    using Cons.IH [OF d, of "stored(f \<mapsto> v)"] by (simp only: eq)
  then show ?case
    unfolding p case_prod_unfold
    by (simp add: Let_def case_prod_unfold del: fun_upd_apply cong: option.case_cong)
qed

text \<open>
  C3. For a registered session and a partial update (an object: its fields are distinct):
  when every supplied value equals the stored one, the call returns the empty list and
  leaves the system as it was, the event bus included; and in every call, each field whose
  value changed (the stored value is unset or different) and that has an event emits that
  event: its name is in the returned list, and the bus received it with the payload
  \<^verbatim>\<open>{ oldState, newState }\<close> of the stored and the new value.
\<close>

theorem C3_events_on_genuine_change_only:
  assumes "sessionMetadata sys sessionId = Some stored"
    and "distinct (map fst partialMetadata)"
  shows "((\<forall>(f, v)\<in>set partialMetadata. stored f = Some v) \<longrightarrow>
            updateSessionMetadata fieldEvent sys sessionId partialMetadata = Inr ([], sys))
       \<and> (\<exists>events sys'.
            updateSessionMetadata fieldEvent sys sessionId partialMetadata = Inr (events, sys')
          \<and> (\<forall>f v event. (f, v) \<in> set partialMetadata \<and> stored f \<noteq> Some v
                  \<and> fieldEvent f = Some event \<longrightarrow>
                event \<in> set events
              \<and> (event, \<lparr>oldState = stored f, newState = v\<rparr>)
                    \<in> set (drop (length (eventBus sys)) (eventBus sys'))))"
proof (intro conjI impI)
  assume same: "\<forall>(f, v)\<in>set partialMetadata. stored f = Some v"
  from assms(1) have "(sessionMetadata sys)(sessionId \<mapsto> stored) = sessionMetadata sys"
    by (rule map_upd_triv)
  with assms(1) merge_fields_unchanged [OF same, of fieldEvent]
  show "updateSessionMetadata fieldEvent sys sessionId partialMetadata = Inr ([], sys)"
    by (simp add: updateSessionMetadata_def)
next
  obtain stored' emitted where m: "merge_fields fieldEvent partialMetadata stored = (stored', emitted)"
    by (cases "merge_fields fieldEvent partialMetadata stored")
  let ?sys' = "sys\<lparr>sessionMetadata := (sessionMetadata sys)(sessionId \<mapsto> stored'),
                    eventBus := eventBus sys @ emitted\<rparr>"
  have r: "updateSessionMetadata fieldEvent sys sessionId partialMetadata = Inr (map fst emitted, ?sys')"
    using assms(1) m by (simp add: updateSessionMetadata_def)
  have e: "emitted = concat (map (\<lambda>(f, v). if stored f = Some v then []
                             else (case fieldEvent f of
                                     None \<Rightarrow> []
                                   | Some ev \<Rightarrow> [(ev, \<lparr>oldState = stored f, newState = v\<rparr>)]))
                 partialMetadata)"
    using merge_fields_emitted [OF assms(2), of fieldEvent stored] m by simp
  have "event \<in> set (map fst emitted)
        \<and> (event, \<lparr>oldState = stored f, newState = v\<rparr>)
              \<in> set (drop (length (eventBus sys)) (eventBus ?sys'))"
    if "(f, v) \<in> set partialMetadata \<and> stored f \<noteq> Some v \<and> fieldEvent f = Some event"
    for f v event
  proof -
    from that have "(event, \<lparr>oldState = stored f, newState = v\<rparr>) \<in> set emitted"
      unfolding e by force
    then show ?thesis by force
  qed
  with r show "\<exists>events sys'.
            updateSessionMetadata fieldEvent sys sessionId partialMetadata = Inr (events, sys')
          \<and> (\<forall>f v event. (f, v) \<in> set partialMetadata \<and> stored f \<noteq> Some v
                  \<and> fieldEvent f = Some event \<longrightarrow>
                event \<in> set events
              \<and> (event, \<lparr>oldState = stored f, newState = v\<rparr>)
                    \<in> set (drop (length (eventBus sys)) (eventBus sys')))"
    by blast
qed

theorem C3_events_on_genuine_change_only_witness:
  "updateSessionMetadata [''todoState'' \<mapsto> ''StatusStateChange'']
      \<lparr>sessionMetadata = [''s1'' \<mapsto> [''todoState'' \<mapsto> ''backlog'']], eventBus = []\<rparr>
      ''s1'' [(''todoState'', ''backlog'')] =
    Inr ([], \<lparr>sessionMetadata = [''s1'' \<mapsto> [''todoState'' \<mapsto> ''backlog'']], eventBus = []\<rparr>)
   \<and> (\<exists>events sys'.
         updateSessionMetadata [''todoState'' \<mapsto> ''StatusStateChange'']
           \<lparr>sessionMetadata = [''s1'' \<mapsto> [''todoState'' \<mapsto> ''backlog'']], eventBus = []\<rparr>
           ''s1'' [(''todoState'', ''todo'')] = Inr (events, sys')
       \<and> ''StatusStateChange'' \<in> set events
       \<and> (''StatusStateChange'', \<lparr>oldState = Some ''backlog'', newState = ''todo''\<rparr>)
             \<in> set (eventBus sys'))"
proof -
  let ?sys = "\<lparr>sessionMetadata = [''s1'' \<mapsto> [''todoState'' \<mapsto> ''backlog'']],
               eventBus = []\<rparr>"
  let ?fe = "[''todoState'' \<mapsto> ''StatusStateChange'']"
  have reg: "sessionMetadata ?sys ''s1'' = Some [''todoState'' \<mapsto> ''backlog'']" by simp
  have 1: "updateSessionMetadata ?fe ?sys ''s1'' [(''todoState'', ''backlog'')] = Inr ([], ?sys)"
    using C3_events_on_genuine_change_only
      [OF reg, of "[(''todoState'', ''backlog'')]" ?fe]
    by simp
  have 2: "\<exists>events sys'.
         updateSessionMetadata ?fe ?sys ''s1'' [(''todoState'', ''todo'')] = Inr (events, sys')
       \<and> ''StatusStateChange'' \<in> set events
       \<and> (''StatusStateChange'', \<lparr>oldState = Some ''backlog'', newState = ''todo''\<rparr>)
             \<in> set (eventBus sys')"
    using C3_events_on_genuine_change_only
      [OF reg, of "[(''todoState'', ''todo'')]" ?fe]
    by (auto dest: in_set_dropD)
  from 1 2 show ?thesis by blast
qed

end
